theory Spec2Isabelle
  imports Complex_Main "HOL-Library.AList" "HOL-Library.Multiset"
begin

section \<open>Data model\<close>

text \<open>
  The converter \<^verbatim>\<open>LinearEqualityToPenalty\<close> of
  \<^verbatim>\<open>qiskit/optimization/converters/linear_equality_to_penalty.py\<close> works on
  quadratic programs. Python numbers (\<^verbatim>\<open>int\<close> and \<^verbatim>\<open>float\<close>) are idealised as
  \<^typ>\<open>real\<close>: arithmetic is exact, there is no rounding, no overflow, no infinity and no
  NaN. A Python dictionary is an association list: lookup finds the first entry of a key,
  assignment replaces that entry in place or appends a new one, iteration follows the list.
\<close>

datatype vartype = CONTINUOUS | BINARY | INTEGER

datatype obj_sense = MINIMIZE | MAXIMIZE

datatype con_sense = EQ | LE | GE

datatype qp_status = VALID | QP_INFEASIBLE

datatype result_status = SUCCESS | FAILURE | INFEASIBLE

type_synonym 'k dict = "('k \<times> real) list"

record variable =
  var_name :: string
  vartype :: vartype
  lowerbound :: real
  upperbound :: real

record objective =
  obj_constant :: real
  linear :: "nat dict"
  quadratic :: "(nat \<times> nat) dict"
  sense :: obj_sense

record constraint =
  con_sense :: con_sense
  rhs :: real
  con_linear :: "nat dict"

record problem =
  qp_name :: string
  variables :: "variable list"
  objective :: objective
  linear_constraints :: "constraint list"
  status :: qp_status

record result =
  res_x :: "real list"
  fval :: real
  res_status :: result_status

text \<open>The instance attributes \<^verbatim>\<open>_src\<close>, \<^verbatim>\<open>_dst\<close>, \<^verbatim>\<open>_dst_name\<close>, \<^verbatim>\<open>_penalty\<close>.\<close>

record encoder =
  src :: "problem option"
  dst :: "problem option"
  dst_name :: "string option"
  penalty :: "real option"

text \<open>
  Every \<^verbatim>\<open>QiskitOptimizationError\<close> the converter raises, told apart by its message:
  an unsupported vartype, an inequality constraint, a result of the wrong length. Reading
  \<^verbatim>\<open>self._src.variables\<close> while \<^verbatim>\<open>_src\<close> is still \<^verbatim>\<open>None\<close> is Python's
  \<^verbatim>\<open>AttributeError\<close>.
\<close>

datatype error =
    UnsupportedVartype
  | InequalityConstraintExists
  | VariableCountDiffers
  | AttributeError

text \<open>The one message the converter logs: the warning that the default penalty is used.\<close>

datatype advisory = DefaultPenaltyWarning real

section \<open>Dictionaries\<close>

definition dict_get :: "('k \<times> 'v) list \<Rightarrow> 'k \<Rightarrow> 'v \<Rightarrow> 'v" where
  "dict_get d k dflt = (case map_of d k of None \<Rightarrow> dflt | Some v \<Rightarrow> v)"

definition dict_set :: "('k \<times> 'v) list \<Rightarrow> 'k \<Rightarrow> 'v \<Rightarrow> ('k \<times> 'v) list" where
  "dict_set d k v = AList.update k v d"

definition keys :: "('k \<times> 'v) list \<Rightarrow> 'k set" where
  "keys d = fst ` set d"

section \<open>The problem container\<close>

text \<open>
  Modelled from the spec: the class \<^verbatim>\<open>QuadraticProgram\<close> is not part of the converter's
  file. \<^verbatim>\<open>QuadraticProgram()\<close> is the empty model (the converter's own comment: "create
  empty QuadraticProgram model"): no variables, no constraints, a zero objective.
  \<^verbatim>\<open>continuous_var\<close>, \<^verbatim>\<open>binary_var\<close> and \<^verbatim>\<open>integer_var\<close> append one variable of their
  kind, a binary one with the bounds 0 and 1; \<^verbatim>\<open>minimize\<close> and \<^verbatim>\<open>maximize\<close> replace the
  objective by the given constant and coefficient dictionaries with their sense.
\<close>

definition QuadraticProgram :: problem where
  "QuadraticProgram =
     \<lparr>qp_name = [], variables = [],
      objective = \<lparr>obj_constant = 0, linear = [], quadratic = [], sense = MINIMIZE\<rparr>,
      linear_constraints = [], status = VALID\<rparr>"

definition add_variable :: "real \<Rightarrow> real \<Rightarrow> string \<Rightarrow> vartype \<Rightarrow> problem \<Rightarrow> problem" where
  "add_variable lb ub n t qp =
     qp\<lparr>variables := variables qp @
        [\<lparr>var_name = n, vartype = t, lowerbound = lb, upperbound = ub\<rparr>]\<rparr>"

definition continuous_var :: "real \<Rightarrow> real \<Rightarrow> string \<Rightarrow> problem \<Rightarrow> problem" where
  "continuous_var lb ub n qp = add_variable lb ub n CONTINUOUS qp"

definition binary_var :: "string \<Rightarrow> problem \<Rightarrow> problem" where
  "binary_var n qp = add_variable 0 1 n BINARY qp"

definition integer_var :: "real \<Rightarrow> real \<Rightarrow> string \<Rightarrow> problem \<Rightarrow> problem" where
  "integer_var lb ub n qp = add_variable lb ub n INTEGER qp"

definition minimize :: "real \<Rightarrow> nat dict \<Rightarrow> (nat \<times> nat) dict \<Rightarrow> problem \<Rightarrow> problem" where
  "minimize c l q qp =
     qp\<lparr>objective := \<lparr>obj_constant = c, linear = l, quadratic = q, sense = MINIMIZE\<rparr>\<rparr>"

definition maximize :: "real \<Rightarrow> nat dict \<Rightarrow> (nat \<times> nat) dict \<Rightarrow> problem \<Rightarrow> problem" where
  "maximize c l q qp =
     qp\<lparr>objective := \<lparr>obj_constant = c, linear = l, quadratic = q, sense = MAXIMIZE\<rparr>\<rparr>"

text \<open>
  Modelled from the spec: the enumeration of the objective senses is not part of the
  converter's file; its \<^verbatim>\<open>value\<close> is +1 for Minimize and -1 for Maximize.
\<close>

definition sense_value :: "obj_sense \<Rightarrow> real" where
  "sense_value s = (case s of MINIMIZE \<Rightarrow> 1 | MAXIMIZE \<Rightarrow> - 1)"

text \<open>
  Modelled from the spec: evaluating an objective at an assignment is not part of the
  converter's file. The value is the constant, plus every linear entry times its variable,
  plus every quadratic entry times its two variables (both orderings of a pair hold
  entries of their own, and they add up).
\<close>

definition evaluate_linear :: "nat dict \<Rightarrow> (nat \<Rightarrow> real) \<Rightarrow> real" where
  "evaluate_linear l a = sum_list (map (\<lambda>(j, c). c * a j) l)"

definition evaluate_quadratic :: "(nat \<times> nat) dict \<Rightarrow> (nat \<Rightarrow> real) \<Rightarrow> real" where
  "evaluate_quadratic q a = sum_list (map (\<lambda>((j, k), c). c * a j * a k) q)"

definition evaluate :: "objective \<Rightarrow> (nat \<Rightarrow> real) \<Rightarrow> real" where
  "evaluate obj a =
     obj_constant obj + evaluate_linear (linear obj) a + evaluate_quadratic (quadratic obj) a"

section \<open>The automatic penalty\<close>

definition default_penalty :: real where
  "default_penalty = 100000"

text \<open>\<^verbatim>\<open>isinstance(term, float) and not term.is_integer()\<close>: a Python \<^verbatim>\<open>int\<close> is integral.\<close>

definition is_integer :: "real \<Rightarrow> bool" where
  "is_integer t = (of_int \<lfloor>t\<rfloor> = t)"

definition constraint_terms :: "problem \<Rightarrow> real list" where
  "constraint_terms qp =
     concat (map (\<lambda>con. rhs con # map snd (con_linear con)) (linear_constraints qp))"

definition penalties :: "problem \<Rightarrow> real list" where
  "penalties qp =
     [1] @ map (\<lambda>(j, coef). \<bar>coef\<bar>) (linear (objective qp))
         @ map (\<lambda>(jk, coef). \<bar>coef\<bar>) (quadratic (objective qp))"

text \<open>\<^verbatim>\<open>math.fsum\<close> is the exact sum of its arguments.\<close>

definition fsum :: "real list \<Rightarrow> real" where
  "fsum ts = sum_list ts"

definition auto_define_penalty :: "problem \<Rightarrow> real \<times> advisory list" where
  "auto_define_penalty qp =
     (if list_ex (\<lambda>t. \<not> is_integer t) (constraint_terms qp)
      then (default_penalty, [DefaultPenaltyWarning default_penalty])
      else (fsum (penalties qp), []))"

section \<open>encode\<close>

text \<open>
  The loop over the variables of the source. The vartype enumeration has the three members
  the branches test, so the final \<^verbatim>\<open>else\<close> with its \<^verbatim>\<open>raise\<close> is never taken.
\<close>

definition set_variable :: "variable \<Rightarrow> problem \<Rightarrow> problem" where
  "set_variable v qp =
     (case vartype v of
        CONTINUOUS \<Rightarrow> continuous_var (lowerbound v) (upperbound v) (var_name v) qp
      | BINARY \<Rightarrow> binary_var (var_name v) qp
      | INTEGER \<Rightarrow> integer_var (lowerbound v) (upperbound v) (var_name v) qp)"

text \<open>The two inner loops over \<^verbatim>\<open>row.items()\<close> for one constraint.\<close>

definition linear_term :: "real \<Rightarrow> real \<Rightarrow> real \<Rightarrow> nat \<times> real \<Rightarrow> nat dict \<Rightarrow> nat dict" where
  "linear_term s pen c = (\<lambda>(j, coef) lin.
     dict_set lin j (dict_get lin j 0 + s * pen * (- 2) * coef * c))"

definition quadratic_term ::
  "real \<Rightarrow> real \<Rightarrow> nat \<times> real \<Rightarrow> nat \<times> real \<Rightarrow> (nat \<times> nat) dict \<Rightarrow> (nat \<times> nat) dict" where
  "quadratic_term s pen = (\<lambda>(j, coef_1) (k, coef_2) quad.
     dict_set quad (j, k) (dict_get quad (j, k) 0 + s * pen * coef_1 * coef_2))"

definition penalty_terms ::
  "real \<Rightarrow> real \<Rightarrow> constraint \<Rightarrow> real \<times> nat dict \<times> (nat \<times> nat) dict
     \<Rightarrow> real \<times> nat dict \<times> (nat \<times> nat) dict" where
  "penalty_terms s pen con = (\<lambda>(offset, lin, quad).
     (let c = rhs con; row = con_linear con
      in (offset + s * pen * c ^ 2,
          fold (linear_term s pen c) row lin,
          fold (\<lambda>jc. fold (quadratic_term s pen jc) row) row quad)))"

text \<open>The loop over the linear constraints: the first one that is no equality raises.\<close>

fun convert_constraints ::
  "real \<Rightarrow> real \<Rightarrow> constraint list \<Rightarrow> real \<times> nat dict \<times> (nat \<times> nat) dict
     \<Rightarrow> error + real \<times> nat dict \<times> (nat \<times> nat) dict" where
  "convert_constraints s pen [] acc = Inr acc"
| "convert_constraints s pen (con # cons) acc =
     (if con_sense con \<noteq> EQ then Inl InequalityConstraintExists
      else convert_constraints s pen cons (penalty_terms s pen con acc))"

text \<open>
  \<^verbatim>\<open>encode\<close> returns the instance after the call, the messages logged and either the error
  raised or the problem returned. \<^verbatim>\<open>copy.deepcopy(op)\<close> is the value \<open>op\<close>. The
  assignments to \<^verbatim>\<open>self._src\<close> and \<^verbatim>\<open>self._dst\<close> come first, so they are part
  of the instance on every path; the problem in \<^verbatim>\<open>_dst\<close> is filled in place, so on the
  raising path it has its name and variables and the objective of the empty model. The
  penalty is a local variable: \<^verbatim>\<open>self._penalty\<close> is read and never assigned.
\<close>

definition encode :: "encoder \<Rightarrow> problem \<Rightarrow> encoder \<times> advisory list \<times> (error + problem)" where
  "encode self op =
     (let (pen, log) = (case penalty self of
                          None \<Rightarrow> auto_define_penalty op
                        | Some p \<Rightarrow> (p, []));
          d1 = QuadraticProgram\<lparr>qp_name :=
                 (case dst_name self of None \<Rightarrow> qp_name op | Some n \<Rightarrow> n)\<rparr>;
          d2 = fold set_variable (variables op) d1;
          offset = obj_constant (objective op);
          lin = linear (objective op);
          quad = quadratic (objective op);
          s = sense_value (sense (objective op))
      in case convert_constraints s pen (linear_constraints op) (offset, lin, quad) of
           Inl e \<Rightarrow> (self\<lparr>src := Some op, dst := Some d2\<rparr>, log, Inl e)
         | Inr (offset', lin', quad') \<Rightarrow>
             (let d3 = (if sense (objective op) = MINIMIZE
                        then minimize offset' lin' quad' d2
                        else maximize offset' lin' quad' d2)
              in (self\<lparr>src := Some op, dst := Some d3\<rparr>, log, Inr d3)))"

text \<open>
  The penalty one call of \<^verbatim>\<open>encode\<close> works with (its local variable \<^verbatim>\<open>penalty\<close>): the
  configured one, or the automatic one of the source when none is configured.
\<close>

definition penalty_used :: "encoder \<Rightarrow> problem \<Rightarrow> real" where
  "penalty_used self op =
     (case penalty self of None \<Rightarrow> fst (auto_define_penalty op) | Some p \<Rightarrow> p)"

section \<open>decode\<close>

text \<open>
  \<^verbatim>\<open>substitute_variables\<close> belongs to the problem container and is outside the converter:
  it is a parameter of \<^verbatim>\<open>decode\<close>. The dictionary handed to it maps the name of the
  variable at each position to the value of the result at that position.
\<close>

definition substitute_dict :: "variable list \<Rightarrow> real list \<Rightarrow> (string \<times> real) list" where
  "substitute_dict vs xs =
     fold (\<lambda>i d. dict_set d (var_name (vs ! i)) (xs ! i)) [0..<length xs] []"

definition decode ::
  "(problem \<Rightarrow> (string \<times> real) list \<Rightarrow> problem) \<Rightarrow> encoder \<Rightarrow> result \<Rightarrow> error + result" where
  "decode substitute_variables self r =
     (case src self of
        None \<Rightarrow> Inl AttributeError
      | Some s \<Rightarrow>
          if length (res_x r) \<noteq> length (variables s) then Inl VariableCountDiffers
          else
            (let substituted_qp = substitute_variables s (substitute_dict (variables s) (res_x r))
             in Inr \<lparr>res_x = res_x r,
                     fval = obj_constant (objective substituted_qp),
                     res_status = (if status substituted_qp = VALID then SUCCESS
                                   else INFEASIBLE)\<rparr>))"

text \<open>The accessors \<^verbatim>\<open>penalty\<close> and \<^verbatim>\<open>name\<close>: getters are the fields, setters overwrite them.\<close>

definition set_penalty :: "real option \<Rightarrow> encoder \<Rightarrow> encoder" where
  "set_penalty p self = self\<lparr>penalty := p\<rparr>"

definition set_name :: "string option \<Rightarrow> encoder \<Rightarrow> encoder" where
  "set_name n self = self\<lparr>dst_name := n\<rparr>"

section \<open>Auxiliary notions\<close>

text \<open>
  The value of the three accumulators of \<^verbatim>\<open>encode\<close> (\<^verbatim>\<open>offset\<close>, \<^verbatim>\<open>linear\<close>,
  \<^verbatim>\<open>quadratic\<close>) at an assignment, as the objective built from them has it.
\<close>

definition evaluate_terms :: "real \<times> nat dict \<times> (nat \<times> nat) dict \<Rightarrow> (nat \<Rightarrow> real) \<Rightarrow> real" where
  "evaluate_terms acc a =
     (case acc of (offset, lin, quad) \<Rightarrow>
        offset + evaluate_linear lin a + evaluate_quadratic quad a)"

text \<open>The entries of an association list under one key, added up.\<close>

definition coef_of :: "('k \<times> real) list \<Rightarrow> 'k \<Rightarrow> real" where
  "coef_of row j = sum_list (map (\<lambda>(j', coef). if j' = j then coef else 0) row)"

text \<open>
  The variable that the loop over the source's variables puts into the destination, and
  the destination when that loop has ended: named, with its variables, nothing else set.
\<close>

definition built_variable :: "variable \<Rightarrow> variable" where
  "built_variable v = (if vartype v = BINARY then v\<lparr>lowerbound := 0, upperbound := 1\<rparr> else v)"

definition named_model :: "encoder \<Rightarrow> problem \<Rightarrow> problem" where
  "named_model self op =
     fold set_variable (variables op)
       (QuadraticProgram\<lparr>qp_name := (case dst_name self of None \<Rightarrow> qp_name op | Some n \<Rightarrow> n)\<rparr>)"

section \<open>Concrete problems\<close>

text \<open>
  The scenario of the specification: one binary variable, minimise \<open>x\<close>, subject to
  \<open>x = 1\<close>; variants with an inequality and with a fractional right-hand side; a
  maximisation over three variables with the constraint \<open>x + 2y = 3\<close>, and the same
  with other bounds on its binary variable.
\<close>

definition var_x :: variable where
  "var_x = \<lparr>var_name = ''x'', vartype = BINARY, lowerbound = 0, upperbound = 1\<rparr>"

definition var_y :: variable where
  "var_y = \<lparr>var_name = ''y'', vartype = INTEGER, lowerbound = 0, upperbound = 5\<rparr>"

definition var_z :: variable where
  "var_z = \<lparr>var_name = ''z'', vartype = CONTINUOUS, lowerbound = - 1, upperbound = 7 / 2\<rparr>"

definition con_x_eq_1 :: constraint where
  "con_x_eq_1 = \<lparr>con_sense = EQ, rhs = 1, con_linear = [(0, 1)]\<rparr>"

definition con_x_le_1 :: constraint where
  "con_x_le_1 = \<lparr>con_sense = LE, rhs = 1, con_linear = [(0, 1)]\<rparr>"

definition con_x_eq_half :: constraint where
  "con_x_eq_half = \<lparr>con_sense = EQ, rhs = 1 / 2, con_linear = [(0, 1)]\<rparr>"

definition con_x_2y_eq_3 :: constraint where
  "con_x_2y_eq_3 = \<lparr>con_sense = EQ, rhs = 3, con_linear = [(0, 1), (1, 2)]\<rparr>"

definition qp_example :: problem where
  "qp_example =
     \<lparr>qp_name = ''P'', variables = [var_x],
      objective = \<lparr>obj_constant = 0, linear = [(0, 1)], quadratic = [], sense = MINIMIZE\<rparr>,
      linear_constraints = [con_x_eq_1], status = VALID\<rparr>"

definition qp_inequality :: problem where
  "qp_inequality = qp_example\<lparr>linear_constraints := [con_x_eq_1, con_x_le_1]\<rparr>"

definition qp_fractional :: problem where
  "qp_fractional = qp_example\<lparr>linear_constraints := [con_x_eq_half]\<rparr>"

definition qp_maximize :: problem where
  "qp_maximize =
     \<lparr>qp_name = ''Q'', variables = [var_x, var_y, var_z],
      objective = \<lparr>obj_constant = 1, linear = [(0, 2)], quadratic = [((0, 1), 1)],
                   sense = MAXIMIZE\<rparr>,
      linear_constraints = [con_x_2y_eq_3], status = VALID\<rparr>"

definition var_wide :: variable where
  "var_wide = \<lparr>var_name = ''x'', vartype = BINARY, lowerbound = - 2, upperbound = 5\<rparr>"

definition qp_wide :: problem where
  "qp_wide = qp_maximize\<lparr>variables := [var_wide, var_y, var_z]\<rparr>"

definition new_encoder :: "real option \<Rightarrow> string option \<Rightarrow> encoder" where
  "new_encoder p n = \<lparr>src = None, dst = None, dst_name = n, penalty = p\<rparr>"

definition encoder_example :: encoder where
  "encoder_example = fst (encode (new_encoder (Some 2) None) qp_example)"

definition result_1 :: result where
  "result_1 = \<lparr>res_x = [1], fval = 1, res_status = SUCCESS\<rparr>"

definition result_0 :: result where
  "result_0 = \<lparr>res_x = [0], fval = 2, res_status = SUCCESS\<rparr>"

definition result_long :: result where
  "result_long = \<lparr>res_x = [1, 0], fval = 1, res_status = SUCCESS\<rparr>"

text \<open>
  A stand-in for the substitution of the container in the concrete runs of
  \<^verbatim>\<open>decode\<close> on the scenario: the objective \<open>x\<close> becomes the value given to
  \<open>x\<close>, and the constraint \<open>x = 1\<close> decides the status.
\<close>

definition substitute_example :: "problem \<Rightarrow> (string \<times> real) list \<Rightarrow> problem" where
  "substitute_example qp d =
     qp\<lparr>objective := (objective qp)\<lparr>obj_constant := dict_get d ''x'' 0\<rparr>,
        status := (if dict_get d ''x'' 0 = 1 then VALID else QP_INFEASIBLE)\<rparr>"

lemmas example_defs =
  var_x_def var_y_def var_z_def var_wide_def qp_wide_def con_x_eq_1_def con_x_le_1_def con_x_eq_half_def
  con_x_2y_eq_3_def qp_example_def qp_inequality_def qp_fractional_def qp_maximize_def
  new_encoder_def

section \<open>Dictionaries: lookup, keys and weighted sums after an update\<close>

lemma dict_get_set:
  "dict_get (dict_set d k v) k' dflt = (if k' = k then v else dict_get d k' dflt)"
  by (simp add: dict_get_def dict_set_def update_conv')

lemma keys_dict_set: "keys (dict_set d k v) = insert k (keys d)"
  by (simp add: keys_def dict_set_def dom_update)

text \<open>Adding to an entry adds the same amount, weighted, to any weighted sum of the entries.\<close>

lemma weighted_sum_add_entry:
  fixes w :: "'k \<Rightarrow> real"
  shows "sum_list (map (\<lambda>(k, c). c * w k) (dict_set d k (dict_get d k 0 + v)))
         = sum_list (map (\<lambda>(k, c). c * w k) d) + v * w k"
proof (induction d)
  case Nil
  show ?case by (simp add: dict_set_def dict_get_def)
next
  case (Cons e d)
  obtain k' c' where e: "e = (k', c')" by (cases e)
  show ?case
  proof (cases "k' = k")
    case True
    then show ?thesis by (simp add: e dict_set_def dict_get_def algebra_simps)
  next
    case False
    then show ?thesis
      using Cons.IH by (simp add: e dict_set_def dict_get_def)
  qed
qed

lemma evaluate_linear_add:
  "evaluate_linear (dict_set l j (dict_get l j 0 + v)) a = evaluate_linear l a + v * a j"
  unfolding evaluate_linear_def by (rule weighted_sum_add_entry)

lemma evaluate_quadratic_add:
  "evaluate_quadratic (dict_set q (j, k) (dict_get q (j, k) 0 + v)) a
   = evaluate_quadratic q a + v * a j * a k"
proof -
  have eq: "(\<lambda>((j, k), c). c * a j * a k) = (\<lambda>(jk, c). c * (case jk of (j, k) \<Rightarrow> a j * a k))"
    by (auto simp: fun_eq_iff)
  show ?thesis
    unfolding evaluate_quadratic_def eq
    using weighted_sum_add_entry [where k = "(j, k)" and w = "\<lambda>jk. case jk of (j, k) \<Rightarrow> a j * a k" and d = q and v = v]
    by (simp add: mult.assoc)
qed

lemma linear_term_apply:
  "linear_term s pen c (j, coef) lin
   = dict_set lin j (dict_get lin j 0 + s * pen * (- 2) * coef * c)"
  by (simp add: linear_term_def)

lemma quadratic_term_apply:
  "quadratic_term s pen (j, coef_1) (k, coef_2) quad
   = dict_set quad (j, k) (dict_get quad (j, k) 0 + s * pen * coef_1 * coef_2)"
  by (simp add: quadratic_term_def)

lemma evaluate_linear_fold:
  "evaluate_linear (fold (linear_term s pen c) row lin) a
   = evaluate_linear lin a + s * pen * (- 2) * c * evaluate_linear row a"
proof (induction row arbitrary: lin)
  case Nil
  show ?case by (simp add: evaluate_linear_def)
next
  case (Cons e row)
  obtain j coef where e: "e = (j, coef)" by (cases e)
  have row: "evaluate_linear (e # row) a = coef * a j + evaluate_linear row a"
    by (simp add: e evaluate_linear_def)
  have step: "evaluate_linear (linear_term s pen c e lin) a
              = evaluate_linear lin a + s * pen * (- 2) * coef * c * a j"
    unfolding e linear_term_apply by (rule evaluate_linear_add)
  have "evaluate_linear (fold (linear_term s pen c) (e # row) lin) a
        = evaluate_linear lin a + s * pen * (- 2) * coef * c * a j
          + s * pen * (- 2) * c * evaluate_linear row a"
    by (simp only: fold_simps o_apply Cons.IH step)
  then show ?case
    by (simp only: row) (simp add: algebra_simps)
qed

lemma evaluate_quadratic_inner:
  "evaluate_quadratic (fold (quadratic_term s pen (j, coef_1)) row quad) a
   = evaluate_quadratic quad a + s * pen * coef_1 * a j * evaluate_linear row a"
proof (induction row arbitrary: quad)
  case Nil
  show ?case by (simp add: evaluate_linear_def)
next
  case (Cons e row)
  obtain k coef_2 where e: "e = (k, coef_2)" by (cases e)
  have row: "evaluate_linear (e # row) a = coef_2 * a k + evaluate_linear row a"
    by (simp add: e evaluate_linear_def)
  have step: "evaluate_quadratic (quadratic_term s pen (j, coef_1) e quad) a
              = evaluate_quadratic quad a + s * pen * coef_1 * coef_2 * a j * a k"
    unfolding e quadratic_term_apply by (rule evaluate_quadratic_add)
  have "evaluate_quadratic (fold (quadratic_term s pen (j, coef_1)) (e # row) quad) a
        = evaluate_quadratic quad a + s * pen * coef_1 * coef_2 * a j * a k
          + s * pen * coef_1 * a j * evaluate_linear row a"
    by (simp only: fold_simps o_apply Cons.IH step)
  then show ?case
    by (simp only: row) (simp add: algebra_simps)
qed

lemma evaluate_quadratic_outer:
  "evaluate_quadratic (fold (\<lambda>jc. fold (quadratic_term s pen jc) row) row' quad) a
   = evaluate_quadratic quad a + s * pen * evaluate_linear row' a * evaluate_linear row a"
proof (induction row' arbitrary: quad)
  case Nil
  show ?case by (simp add: evaluate_linear_def)
next
  case (Cons e row')
  obtain j coef_1 where e: "e = (j, coef_1)" by (cases e)
  have row: "evaluate_linear (e # row') a = coef_1 * a j + evaluate_linear row' a"
    by (simp add: e evaluate_linear_def)
  have "evaluate_quadratic (fold (\<lambda>jc. fold (quadratic_term s pen jc) row) (e # row') quad) a
        = evaluate_quadratic quad a + s * pen * coef_1 * a j * evaluate_linear row a
          + s * pen * evaluate_linear row' a * evaluate_linear row a"
    by (simp only: fold_simps o_apply Cons.IH e evaluate_quadratic_inner)
  then show ?case
    by (simp only: row) (simp add: algebra_simps)
qed

lemma evaluate_penalty_terms:
  "evaluate_terms (penalty_terms s pen con acc) a
   = evaluate_terms acc a + s * pen * (rhs con - evaluate_linear (con_linear con) a) ^ 2"
proof -
  obtain offset lin quad where acc: "acc = (offset, lin, quad)" by (cases acc)
  show ?thesis
    by (simp add: acc evaluate_terms_def penalty_terms_def Let_def evaluate_linear_fold
        evaluate_quadratic_outer power2_eq_square algebra_simps)
qed

lemma evaluate_convert_constraints:
  "convert_constraints s pen cons acc = Inr acc' \<Longrightarrow>
   evaluate_terms acc' a
   = evaluate_terms acc a
     + s * pen * sum_list (map (\<lambda>con. (rhs con - evaluate_linear (con_linear con) a) ^ 2) cons)"
proof (induction cons arbitrary: acc)
  case Nil
  then show ?case by simp
next
  case (Cons con cons)
  from Cons.prems have eq: "con_sense con = EQ"
    and rest: "convert_constraints s pen cons (penalty_terms s pen con acc) = Inr acc'"
    by (auto split: if_splits)
  show ?case
    using Cons.IH [OF rest] by (simp add: evaluate_penalty_terms algebra_simps)
qed

section \<open>What one constraint adds to each coefficient\<close>

lemma coef_of_Nil: "coef_of [] j = 0"
  by (simp add: coef_of_def)

lemma coef_of_Cons: "coef_of ((j', coef) # row) j = (if j' = j then coef else 0) + coef_of row j"
  by (simp add: coef_of_def)

lemma coef_of_absent: "j \<notin> keys row \<Longrightarrow> coef_of row j = 0"
  by (induction row) (auto simp: coef_of_def keys_def)

lemma dict_get_absent: "j \<notin> keys row \<Longrightarrow> dict_get row j 0 = (0::real)"
  by (simp add: dict_get_def keys_def map_of_eq_None_iff [THEN iffD2])

lemma coef_of_distinct: "distinct (map fst row) \<Longrightarrow> coef_of row j = dict_get row j 0"
proof (induction row)
  case Nil
  show ?case by (simp add: coef_of_def dict_get_def)
next
  case (Cons e row)
  obtain j' coef where e: "e = (j', coef)" by (cases e)
  from Cons.prems have notin: "j' \<notin> keys row" and dist: "distinct (map fst row)"
    by (simp_all add: e keys_def)
  show ?case
  proof (cases "j' = j")
    case True
    with notin have "coef_of row j = 0" by (simp add: coef_of_absent)
    with True show ?thesis by (simp add: e coef_of_Cons dict_get_def)
  next
    case False
    with Cons.IH [OF dist] show ?thesis by (simp add: e coef_of_Cons dict_get_def)
  qed
qed

lemma dict_get_linear_fold:
  "dict_get (fold (linear_term s pen c) row lin) j 0
   = dict_get lin j 0 + s * pen * (- 2 * c * coef_of row j)"
proof (induction row arbitrary: lin)
  case Nil
  show ?case by (simp add: coef_of_Nil)
next
  case (Cons e row)
  obtain j' coef where e: "e = (j', coef)" by (cases e)
  have step: "dict_get (linear_term s pen c e lin) j 0
              = dict_get lin j 0 + (if j' = j then s * pen * (- 2) * coef * c else 0)"
    unfolding e linear_term_apply by (simp add: dict_get_set)
  have "dict_get (fold (linear_term s pen c) (e # row) lin) j 0
        = dict_get lin j 0 + (if j' = j then s * pen * (- 2) * coef * c else 0)
          + s * pen * (- 2 * c * coef_of row j)"
    by (simp only: fold_simps o_apply Cons.IH step)
  then show ?case
    by (simp only: e coef_of_Cons) (simp add: algebra_simps)
qed

lemma dict_get_quadratic_inner:
  "dict_get (fold (quadratic_term s pen (j', coef_1)) row quad) (j, k) 0
   = dict_get quad (j, k) 0 + (if j' = j then s * pen * (coef_1 * coef_of row k) else 0)"
proof (induction row arbitrary: quad)
  case Nil
  show ?case by (simp add: coef_of_Nil)
next
  case (Cons e row)
  obtain k' coef_2 where e: "e = (k', coef_2)" by (cases e)
  have step: "dict_get (quadratic_term s pen (j', coef_1) e quad) (j, k) 0
              = dict_get quad (j, k) 0
                + (if j' = j \<and> k' = k then s * pen * coef_1 * coef_2 else 0)"
    unfolding e quadratic_term_apply by (auto simp add: dict_get_set)
  have "dict_get (fold (quadratic_term s pen (j', coef_1)) (e # row) quad) (j, k) 0
        = dict_get quad (j, k) 0 + (if j' = j \<and> k' = k then s * pen * coef_1 * coef_2 else 0)
          + (if j' = j then s * pen * (coef_1 * coef_of row k) else 0)"
    by (simp only: fold_simps o_apply Cons.IH step)
  then show ?case
    by (simp only: e coef_of_Cons) (simp add: algebra_simps)
qed

lemma dict_get_quadratic_outer:
  "dict_get (fold (\<lambda>jc. fold (quadratic_term s pen jc) row) row' quad) (j, k) 0
   = dict_get quad (j, k) 0 + s * pen * (coef_of row' j * coef_of row k)"
proof (induction row' arbitrary: quad)
  case Nil
  show ?case by (simp add: coef_of_Nil)
next
  case (Cons e row')
  obtain j' coef_1 where e: "e = (j', coef_1)" by (cases e)
  have "dict_get (fold (\<lambda>jc. fold (quadratic_term s pen jc) row) (e # row') quad) (j, k) 0
        = dict_get quad (j, k) 0 + (if j' = j then s * pen * (coef_1 * coef_of row k) else 0)
          + s * pen * (coef_of row' j * coef_of row k)"
    by (simp only: fold_simps o_apply Cons.IH e dict_get_quadratic_inner)
  then show ?case
    by (simp only: e coef_of_Cons) (simp add: algebra_simps)
qed

lemma keys_linear_fold: "keys (fold (linear_term s pen c) row lin) = keys lin \<union> keys row"
proof (induction row arbitrary: lin)
  case Nil
  show ?case by (simp add: keys_def)
next
  case (Cons e row)
  obtain j coef where e: "e = (j, coef)" by (cases e)
  have step: "keys (linear_term s pen c e lin) = insert j (keys lin)"
    unfolding e linear_term_apply by (rule keys_dict_set)
  have "keys (fold (linear_term s pen c) (e # row) lin) = insert j (keys lin) \<union> keys row"
    by (simp only: fold_simps o_apply Cons.IH step)
  then show ?case by (simp add: e keys_def)
qed

lemma keys_quadratic_inner:
  "keys (fold (quadratic_term s pen (j, coef_1)) row quad) = keys quad \<union> {j} \<times> keys row"
proof (induction row arbitrary: quad)
  case Nil
  show ?case by (simp add: keys_def)
next
  case (Cons e row)
  obtain k coef_2 where e: "e = (k, coef_2)" by (cases e)
  have step: "keys (quadratic_term s pen (j, coef_1) e quad) = insert (j, k) (keys quad)"
    unfolding e quadratic_term_apply by (rule keys_dict_set)
  have "keys (fold (quadratic_term s pen (j, coef_1)) (e # row) quad)
        = insert (j, k) (keys quad) \<union> {j} \<times> keys row"
    by (simp only: fold_simps o_apply Cons.IH step)
  then show ?case by (auto simp: e keys_def)
qed

lemma keys_quadratic_outer:
  "keys (fold (\<lambda>jc. fold (quadratic_term s pen jc) row) row' quad)
   = keys quad \<union> keys row' \<times> keys row"
proof (induction row' arbitrary: quad)
  case Nil
  show ?case by (simp add: keys_def)
next
  case (Cons e row')
  obtain j coef_1 where e: "e = (j, coef_1)" by (cases e)
  have "keys (fold (\<lambda>jc. fold (quadratic_term s pen jc) row) (e # row') quad)
        = (keys quad \<union> {j} \<times> keys row) \<union> keys row' \<times> keys row"
    by (simp only: fold_simps o_apply Cons.IH e keys_quadratic_inner)
  then show ?case by (auto simp: e keys_def)
qed

text \<open>What the loop over the constraints has added when it ends without raising.\<close>

lemma convert_constraints_sums:
  "convert_constraints s pen cons (offset, lin, quad) = Inr (offset', lin', quad') \<Longrightarrow>
   offset' = offset + sum_list (map (\<lambda>con. s * pen * (rhs con) ^ 2) cons)
   \<and> dict_get lin' j 0
       = dict_get lin j 0
         + sum_list (map (\<lambda>con. s * pen * (- 2 * rhs con * coef_of (con_linear con) j)) cons)
   \<and> dict_get quad' (j, k) 0
       = dict_get quad (j, k) 0
         + sum_list (map (\<lambda>con. s * pen
             * (coef_of (con_linear con) j * coef_of (con_linear con) k)) cons)
   \<and> keys lin' = keys lin \<union> (\<Union>con \<in> set cons. keys (con_linear con))
   \<and> keys quad' = keys quad
       \<union> (\<Union>con \<in> set cons. keys (con_linear con) \<times> keys (con_linear con))"
proof (induction cons arbitrary: offset lin quad)
  case Nil
  then show ?case by simp
next
  case (Cons con cons)
  let ?lin = "fold (linear_term s pen (rhs con)) (con_linear con) lin"
  let ?quad = "fold (\<lambda>jc. fold (quadratic_term s pen jc) (con_linear con)) (con_linear con) quad"
  from Cons.prems
  have rest: "convert_constraints s pen cons (offset + s * pen * (rhs con) ^ 2, ?lin, ?quad)
              = Inr (offset', lin', quad')"
    by (simp add: penalty_terms_def Let_def split: if_splits)
  show ?case
    using Cons.IH [OF rest]
    by (simp add: dict_get_linear_fold dict_get_quadratic_outer keys_linear_fold
        keys_quadratic_outer Un_assoc)
qed

lemma convert_constraints_all_EQ:
  "(\<forall>con \<in> set cons. con_sense con = EQ) \<Longrightarrow> \<exists>acc'. convert_constraints s pen cons acc = Inr acc'"
  by (induction cons arbitrary: acc) auto

lemma convert_constraints_raises:
  "(\<exists>acc'. convert_constraints s pen cons acc = Inr acc') \<or>
   convert_constraints s pen cons acc = Inl InequalityConstraintExists"
  by (induction cons arbitrary: acc) auto

lemma convert_constraints_Inl_iff:
  "(convert_constraints s pen cons acc = Inl InequalityConstraintExists)
   = (\<exists>con \<in> set cons. con_sense con \<noteq> EQ)"
  by (induction cons arbitrary: acc) auto

section \<open>The outcome of encode\<close>

text \<open>
  \<^verbatim>\<open>encode\<close> with its local names resolved: the loop over the constraints decides between
  the raising and the returning path, and both paths store the source first.
\<close>

lemma encode_unfold:
  "encode self op =
     (case convert_constraints (sense_value (sense (objective op))) (penalty_used self op)
             (linear_constraints op)
             (obj_constant (objective op), linear (objective op), quadratic (objective op)) of
        Inl e \<Rightarrow>
          (self\<lparr>src := Some op, dst := Some (named_model self op)\<rparr>,
           (case penalty self of None \<Rightarrow> snd (auto_define_penalty op) | Some p \<Rightarrow> []),
           Inl e)
      | Inr acc' \<Rightarrow>
          (self\<lparr>src := Some op, dst := Some ((named_model self op)\<lparr>objective :=
              \<lparr>obj_constant = fst acc', linear = fst (snd acc'), quadratic = snd (snd acc'),
               sense = sense (objective op)\<rparr>\<rparr>)\<rparr>,
           (case penalty self of None \<Rightarrow> snd (auto_define_penalty op) | Some p \<Rightarrow> []),
           Inr ((named_model self op)\<lparr>objective :=
              \<lparr>obj_constant = fst acc', linear = fst (snd acc'), quadratic = snd (snd acc'),
               sense = sense (objective op)\<rparr>\<rparr>)))"
proof (cases "penalty self")
  case None
  show ?thesis
    by (cases "sense (objective op)")
       (simp_all add: encode_def None penalty_used_def named_model_def Let_def case_prod_beta
         minimize_def maximize_def split: sum.split)
next
  case (Some p)
  show ?thesis
    by (cases "sense (objective op)")
       (simp_all add: encode_def Some penalty_used_def named_model_def Let_def case_prod_beta
         minimize_def maximize_def split: sum.split)
qed

lemma encode_src: "src (fst (encode self op)) = Some op"
  by (simp add: encode_unfold split: sum.split)

lemma encode_penalty: "penalty (fst (encode self op)) = penalty self"
  by (simp add: encode_unfold split: sum.split)

lemma encode_dst_name: "dst_name (fst (encode self op)) = dst_name self"
  by (simp add: encode_unfold split: sum.split)

lemma encode_raises:
  assumes "convert_constraints (sense_value (sense (objective op))) (penalty_used self op)
             (linear_constraints op)
             (obj_constant (objective op), linear (objective op), quadratic (objective op))
           = Inl e"
  shows "snd (snd (encode self op)) = Inl e"
    and "dst (fst (encode self op)) = Some (named_model self op)"
  using assms by (simp_all add: encode_unfold)

lemma encode_returns:
  assumes "convert_constraints (sense_value (sense (objective op))) (penalty_used self op)
             (linear_constraints op)
             (obj_constant (objective op), linear (objective op), quadratic (objective op))
           = Inr (offset', lin', quad')"
  shows "snd (snd (encode self op))
         = Inr ((named_model self op)\<lparr>objective :=
             \<lparr>obj_constant = offset', linear = lin', quadratic = quad',
              sense = sense (objective op)\<rparr>\<rparr>)"
    and "dst (fst (encode self op))
         = Some ((named_model self op)\<lparr>objective :=
             \<lparr>obj_constant = offset', linear = lin', quadratic = quad',
              sense = sense (objective op)\<rparr>\<rparr>)"
  using assms by (simp_all add: encode_unfold)


lemma set_variable_appends:
  "set_variable v qp = qp\<lparr>variables := variables qp @ [built_variable v]\<rparr>"
  by (cases "vartype v")
     (simp_all add: set_variable_def continuous_var_def binary_var_def integer_var_def
       add_variable_def built_variable_def)

lemma fold_set_variable:
  "fold set_variable vs qp = qp\<lparr>variables := variables qp @ map built_variable vs\<rparr>"
  by (induction vs arbitrary: qp) (simp_all add: set_variable_appends)

lemma named_model_parts:
  "variables (named_model self op) = map built_variable (variables op)"
  "linear_constraints (named_model self op) = []"
  "objective (named_model self op) = objective QuadraticProgram"
  "status (named_model self op) = VALID"
  by (simp_all add: named_model_def fold_set_variable QuadraticProgram_def)

lemmas encode_defs =
  encode_def penalty_used_def auto_define_penalty_def constraint_terms_def penalties_def
  fsum_def default_penalty_def QuadraticProgram_def set_variable_def
  add_variable_def continuous_var_def binary_var_def integer_var_def minimize_def
  maximize_def sense_value_def penalty_terms_def linear_term_def quadratic_term_def
  dict_get_def dict_set_def Let_def

section \<open>The penalty terms added by encode\<close>

lemma sum_list_map_cong:
  "(\<And>e. e \<in> set es \<Longrightarrow> f e = g e) \<Longrightarrow> sum_list (map f es) = sum_list (map g es)"
  by (induction es) auto

text \<open>
  C1: when every constraint of the source is an equality (each row a dictionary, so with
  distinct keys), \<^verbatim>\<open>encode\<close> returns a problem whose objective is the source's with, for
  every constraint with right-hand side \<open>C\<close> and row \<open>{j: c\<^sub>j}\<close>, \<open>sign * penalty * C\<^sup>2\<close>
  added to the constant, \<open>sign * penalty * (-2 * C * c\<^sub>j)\<close> added to the linear
  coefficient of \<open>j\<close>, and \<open>sign * penalty * c\<^sub>j * c\<^sub>k\<close> added to the quadratic
  coefficient of every ordered pair \<open>(j, k)\<close> of the row, \<open>j = k\<close> included. The sign is
  +1 for Minimize and -1 for Maximize, one value for the whole call; coefficients already
  in the source's objective are added to (an absent one counts as 0), and no other key
  appears in the dictionaries.
\<close>

theorem encode_adds_penalty_terms:
  assumes all_eq: "\<forall>con \<in> set (linear_constraints op). con_sense con = EQ"
    and rows: "\<forall>con \<in> set (linear_constraints op). distinct (map fst (con_linear con))"
  shows "\<exists>d. snd (snd (encode self op)) = Inr d
    \<and> obj_constant (objective d)
        = obj_constant (objective op)
          + sum_list (map (\<lambda>con. sense_value (sense (objective op)) * penalty_used self op
               * (rhs con) ^ 2) (linear_constraints op))
    \<and> (\<forall>j. dict_get (linear (objective d)) j 0
        = dict_get (linear (objective op)) j 0
          + sum_list (map (\<lambda>con. sense_value (sense (objective op)) * penalty_used self op
               * (- 2 * rhs con * dict_get (con_linear con) j 0)) (linear_constraints op)))
    \<and> (\<forall>j k. dict_get (quadratic (objective d)) (j, k) 0
        = dict_get (quadratic (objective op)) (j, k) 0
          + sum_list (map (\<lambda>con. sense_value (sense (objective op)) * penalty_used self op
               * (dict_get (con_linear con) j 0 * dict_get (con_linear con) k 0))
               (linear_constraints op)))
    \<and> keys (linear (objective d))
        = keys (linear (objective op))
          \<union> (\<Union>con \<in> set (linear_constraints op). keys (con_linear con))
    \<and> keys (quadratic (objective d))
        = keys (quadratic (objective op))
          \<union> (\<Union>con \<in> set (linear_constraints op). keys (con_linear con) \<times> keys (con_linear con))"
proof -
  let ?s = "sense_value (sense (objective op))"
  let ?p = "penalty_used self op"
  let ?cons = "linear_constraints op"
  obtain acc' where "convert_constraints ?s ?p ?cons
      (obj_constant (objective op), linear (objective op), quadratic (objective op)) = Inr acc'"
    using convert_constraints_all_EQ [OF all_eq] by blast
  then obtain offset' lin' quad' where conv: "convert_constraints ?s ?p ?cons
      (obj_constant (objective op), linear (objective op), quadratic (objective op))
      = Inr (offset', lin', quad')"
    by (cases acc') auto
  let ?d = "(named_model self op)\<lparr>objective :=
             \<lparr>obj_constant = offset', linear = lin', quadratic = quad',
              sense = sense (objective op)\<rparr>\<rparr>"
  have ret: "snd (snd (encode self op)) = Inr ?d"
    by (rule encode_returns(1) [OF conv])
  have lin_eq: "sum_list (map (\<lambda>con. ?s * ?p * (- 2 * rhs con * coef_of (con_linear con) j)) ?cons)
      = sum_list (map (\<lambda>con. ?s * ?p * (- 2 * rhs con * dict_get (con_linear con) j 0)) ?cons)"
    for j
    by (rule sum_list_map_cong) (simp add: rows coef_of_distinct)
  have quad_eq: "sum_list (map (\<lambda>con. ?s * ?p
        * (coef_of (con_linear con) j * coef_of (con_linear con) k)) ?cons)
      = sum_list (map (\<lambda>con. ?s * ?p
        * (dict_get (con_linear con) j 0 * dict_get (con_linear con) k 0)) ?cons)"
    for j k
    by (rule sum_list_map_cong) (simp add: rows coef_of_distinct)
  have off: "obj_constant (objective ?d)
      = obj_constant (objective op) + sum_list (map (\<lambda>con. ?s * ?p * (rhs con) ^ 2) ?cons)"
    using convert_constraints_sums [OF conv] by simp
  have lin: "dict_get (linear (objective ?d)) j 0
      = dict_get (linear (objective op)) j 0
        + sum_list (map (\<lambda>con. ?s * ?p * (- 2 * rhs con * dict_get (con_linear con) j 0)) ?cons)"
    for j
    using convert_constraints_sums [OF conv, of j] by (simp only: lin_eq [symmetric]) simp
  have quad: "dict_get (quadratic (objective ?d)) (j, k) 0
      = dict_get (quadratic (objective op)) (j, k) 0
        + sum_list (map (\<lambda>con. ?s * ?p
            * (dict_get (con_linear con) j 0 * dict_get (con_linear con) k 0)) ?cons)"
    for j k
    using convert_constraints_sums [OF conv, of j k] by (simp only: quad_eq [symmetric]) simp
  have klin: "keys (linear (objective ?d))
      = keys (linear (objective op)) \<union> (\<Union>con \<in> set ?cons. keys (con_linear con))"
    using convert_constraints_sums [OF conv] by simp
  have kquad: "keys (quadratic (objective ?d))
      = keys (quadratic (objective op))
        \<union> (\<Union>con \<in> set ?cons. keys (con_linear con) \<times> keys (con_linear con))"
    using convert_constraints_sums [OF conv] by simp
  from ret off lin quad klin kquad show ?thesis by blast
qed

theorem encode_adds_penalty_terms_witness:
  "map con_sense (linear_constraints qp_maximize) = [EQ]
   \<and> map (\<lambda>con. map fst (con_linear con)) (linear_constraints qp_maximize) = [[0, 1]]
   \<and> (\<exists>d. snd (snd (encode (new_encoder (Some 10) None) qp_maximize)) = Inr d
        \<and> obj_constant (objective d) = - 89
        \<and> dict_get (linear (objective d)) 0 0 = 62
        \<and> dict_get (linear (objective d)) 1 0 = 120
        \<and> dict_get (quadratic (objective d)) (0, 0) 0 = - 10
        \<and> dict_get (quadratic (objective d)) (0, 1) 0 = - 19
        \<and> dict_get (quadratic (objective d)) (1, 0) 0 = - 20
        \<and> dict_get (quadratic (objective d)) (1, 1) 0 = - 40)"
  using encode_adds_penalty_terms [of qp_maximize "new_encoder (Some 10) None"]
  by (simp add: encode_defs example_defs)

section \<open>Feasible assignments keep their objective value\<close>

text \<open>
  C2: for every source problem, every configured penalty and every assignment at which
  each constraint's row evaluates to its right-hand side, the objective of the problem
  that \<^verbatim>\<open>encode\<close> returns has the value of the source's objective at that assignment.
\<close>

theorem encode_keeps_feasible_value:
  assumes ret: "snd (snd (encode self op)) = Inr d"
    and feasible: "\<forall>con \<in> set (linear_constraints op). evaluate_linear (con_linear con) a = rhs con"
  shows "evaluate (objective d) a = evaluate (objective op) a"
proof -
  let ?s = "sense_value (sense (objective op))"
  let ?p = "penalty_used self op"
  let ?acc = "(obj_constant (objective op), linear (objective op), quadratic (objective op))"
  have "\<exists>acc'. convert_constraints ?s ?p (linear_constraints op) ?acc = Inr acc'"
  proof (cases "convert_constraints ?s ?p (linear_constraints op) ?acc")
    case (Inl e)
    from encode_raises(1) [OF Inl] ret show ?thesis by simp
  next
    case (Inr acc')
    then show ?thesis by blast
  qed
  then obtain offset' lin' quad' where
    conv: "convert_constraints ?s ?p (linear_constraints op) ?acc = Inr (offset', lin', quad')"
    by (elim exE, case_tac acc') auto
  from encode_returns(1) [OF conv] ret
  have d: "objective d = \<lparr>obj_constant = offset', linear = lin', quadratic = quad',
                           sense = sense (objective op)\<rparr>"
    by auto
  have zero: "sum_list (map (\<lambda>con. (rhs con - evaluate_linear (con_linear con) a) ^ 2)
                (linear_constraints op)) = sum_list (map (\<lambda>con. 0) (linear_constraints op))"
    by (rule sum_list_map_cong) (simp add: feasible)
  have "evaluate_terms (offset', lin', quad') a = evaluate_terms ?acc a"
    using evaluate_convert_constraints [OF conv, of a] by (simp only: zero) simp
  then show ?thesis
    by (simp add: d evaluate_def evaluate_terms_def)
qed

theorem encode_keeps_feasible_value_witness:
  "(\<exists>d. snd (snd (encode (new_encoder (Some 10) None) qp_maximize)) = Inr d
      \<and> evaluate (objective d) (\<lambda>j. 1) = 4)
   \<and> evaluate_linear (con_linear con_x_2y_eq_3) (\<lambda>j. 1) = rhs con_x_2y_eq_3
   \<and> evaluate (objective qp_maximize) (\<lambda>j. 1) = 4"
proof -
  obtain d where d: "snd (snd (encode (new_encoder (Some 10) None) qp_maximize)) = Inr d"
    by (simp add: encode_defs example_defs)
  have h: "\<forall>con \<in> set (linear_constraints qp_maximize).
        evaluate_linear (con_linear con) (\<lambda>j. 1) = rhs con"
    by (simp add: example_defs evaluate_linear_def)
  have v: "evaluate (objective qp_maximize) (\<lambda>j. 1) = 4"
    by (simp add: example_defs evaluate_def evaluate_linear_def evaluate_quadratic_def)
  have c: "evaluate_linear (con_linear con_x_2y_eq_3) (\<lambda>j. 1) = rhs con_x_2y_eq_3"
    by (simp add: example_defs evaluate_linear_def)
  from encode_keeps_feasible_value [OF d h] v d c show ?thesis by simp
qed

section \<open>The automatic penalty\<close>

lemma fsum_order_independent: "mset ts = mset ts' \<Longrightarrow> fsum ts = fsum ts'"
  unfolding fsum_def by (metis sum_mset_sum_list)

lemma set_constraint_terms:
  "set (constraint_terms qp)
   = rhs ` set (linear_constraints qp)
     \<union> (\<Union>con \<in> set (linear_constraints qp). snd ` set (con_linear con))"
  by (auto simp: constraint_terms_def)

text \<open>
  C3: the terms inspected are the right-hand side and the row coefficients of every
  constraint. If one of them is not integral, the automatic penalty is the default 100000
  and the one effect besides is the logged warning; otherwise it is 1 plus the absolute
  values of all linear and all quadratic coefficients of the objective, nothing is logged,
  and the sum does not depend on the order of its terms. This is the penalty a call of
  \<^verbatim>\<open>encode\<close> works with when none is configured.
\<close>

theorem auto_define_penalty_cases:
  "((\<exists>t \<in> set (constraint_terms qp). \<not> is_integer t) \<longrightarrow>
      auto_define_penalty qp = (100000, [DefaultPenaltyWarning 100000]))
   \<and> ((\<forall>t \<in> set (constraint_terms qp). is_integer t) \<longrightarrow>
      auto_define_penalty qp
      = (1 + sum_list (map (\<lambda>(j, coef). \<bar>coef\<bar>) (linear (objective qp)))
           + sum_list (map (\<lambda>(jk, coef). \<bar>coef\<bar>) (quadratic (objective qp))), []))
   \<and> set (constraint_terms qp)
      = rhs ` set (linear_constraints qp)
        \<union> (\<Union>con \<in> set (linear_constraints qp). snd ` set (con_linear con))
   \<and> (\<forall>ts. mset ts = mset (penalties qp) \<longrightarrow> fsum ts = fsum (penalties qp))
   \<and> (penalty self = None \<longrightarrow> penalty_used self qp = fst (auto_define_penalty qp))"
proof -
  have a: "(\<exists>t \<in> set (constraint_terms qp). \<not> is_integer t) \<longrightarrow>
      auto_define_penalty qp = (100000, [DefaultPenaltyWarning 100000])"
    by (simp add: auto_define_penalty_def default_penalty_def list_ex_iff)
  have b: "(\<forall>t \<in> set (constraint_terms qp). is_integer t) \<longrightarrow>
      auto_define_penalty qp
      = (1 + sum_list (map (\<lambda>(j, coef). \<bar>coef\<bar>) (linear (objective qp)))
           + sum_list (map (\<lambda>(jk, coef). \<bar>coef\<bar>) (quadratic (objective qp))), [])"
    by (simp add: auto_define_penalty_def list_ex_iff fsum_def penalties_def)
  have c: "\<forall>ts. mset ts = mset (penalties qp) \<longrightarrow> fsum ts = fsum (penalties qp)"
    by (intro allI impI) (rule fsum_order_independent)
  have d: "penalty self = None \<longrightarrow> penalty_used self qp = fst (auto_define_penalty qp)"
    by (simp add: penalty_used_def)
  from a b set_constraint_terms [of qp] c d show ?thesis by (intro conjI)
qed

theorem auto_define_penalty_cases_witness:
  "constraint_terms qp_fractional = [1 / 2, 1]
   \<and> \<not> is_integer (1 / 2)
   \<and> auto_define_penalty qp_fractional = (100000, [DefaultPenaltyWarning 100000])
   \<and> constraint_terms qp_example = [1, 1]
   \<and> is_integer 1
   \<and> auto_define_penalty qp_example = (2, [])
   \<and> mset [1, 1] = mset (penalties qp_example)
   \<and> fsum [1, 1] = fsum (penalties qp_example)
   \<and> penalty (new_encoder None None) = None
   \<and> penalty_used (new_encoder None None) qp_example = 2"
proof -
  note frac = auto_define_penalty_cases [of qp_fractional "new_encoder None None"]
  note intg = auto_define_penalty_cases [of qp_example "new_encoder None None"]
  have t1: "constraint_terms qp_fractional = [1 / 2, 1]"
    by (simp add: constraint_terms_def example_defs)
  have t2: "constraint_terms qp_example = [1, 1]"
    by (simp add: constraint_terms_def example_defs)
  have i1: "\<not> is_integer (1 / 2)"
    by (simp add: is_integer_def del: of_int_floor_cancel)
  have i2: "is_integer 1"
    by (simp add: is_integer_def)
  have h1: "\<exists>t \<in> set (constraint_terms qp_fractional). \<not> is_integer t"
    by (simp add: t1 i1)
  have h2: "\<forall>t \<in> set (constraint_terms qp_example). is_integer t"
    by (simp add: t2 i2)
  have h3: "mset [1, 1] = mset (penalties qp_example)"
    by (simp add: penalties_def example_defs)
  have h4: "penalty (new_encoder None None) = None"
    by (simp add: new_encoder_def)
  have r1: "auto_define_penalty qp_fractional = (100000, [DefaultPenaltyWarning 100000])"
    by (rule mp [OF frac [THEN conjunct1] h1])
  have "auto_define_penalty qp_example
      = (1 + sum_list (map (\<lambda>(j, coef). \<bar>coef\<bar>) (linear (objective qp_example)))
           + sum_list (map (\<lambda>(jk, coef). \<bar>coef\<bar>) (quadratic (objective qp_example))), [])"
    by (rule mp [OF intg [THEN conjunct2, THEN conjunct1] h2])
  then have r2: "auto_define_penalty qp_example = (2, [])"
    by (simp add: example_defs)
  have r4: "fsum [1, 1] = fsum (penalties qp_example)"
    by (rule mp [OF intg [THEN conjunct2, THEN conjunct2, THEN conjunct2, THEN conjunct1,
          THEN spec] h3])
  have "penalty_used (new_encoder None None) qp_example = fst (auto_define_penalty qp_example)"
    by (rule mp [OF intg [THEN conjunct2, THEN conjunct2, THEN conjunct2, THEN conjunct2] h4])
  then have r3: "penalty_used (new_encoder None None) qp_example = 2"
    by (simp add: r2)
  from t1 i1 r1 t2 i2 r2 h3 r4 h4 r3 show ?thesis by (intro conjI)
qed

lemma sum_list_abs_nonneg:
  fixes f :: "'a \<Rightarrow> real"
  shows "(\<And>e. e \<in> set es \<Longrightarrow> 0 \<le> f e) \<Longrightarrow> 0 \<le> sum_list (map f es)"
  by (induction es) auto

lemma fsum_penalties_ge_1: "1 \<le> fsum (penalties qp)"
proof -
  have "0 \<le> sum_list (map (\<lambda>(j, coef). \<bar>coef\<bar>) (linear (objective qp)))"
    by (rule sum_list_abs_nonneg) auto
  moreover have "0 \<le> sum_list (map (\<lambda>(jk, coef). \<bar>coef\<bar>) (quadratic (objective qp)))"
    by (rule sum_list_abs_nonneg) auto
  ultimately show ?thesis
    by (simp add: fsum_def penalties_def)
qed

text \<open>
  C10: for every source problem the automatic penalty is at least 1, hence strictly
  positive: it is the default 100000 or the sum of a list that starts with 1 and holds
  only absolute values besides.
\<close>

theorem auto_penalty_at_least_one:
  "1 \<le> fst (auto_define_penalty qp) \<and> 0 < fst (auto_define_penalty qp)
   \<and> (fst (auto_define_penalty qp) = default_penalty
      \<or> fst (auto_define_penalty qp) = fsum (penalties qp))
   \<and> hd (penalties qp) = 1 \<and> (\<forall>t \<in> set (tl (penalties qp)). 0 \<le> t)"
proof -
  have a: "1 \<le> fst (auto_define_penalty qp)"
    using fsum_penalties_ge_1 [of qp]
    by (simp add: auto_define_penalty_def default_penalty_def)
  have b: "\<forall>t \<in> set (tl (penalties qp)). 0 \<le> t"
    by (auto simp: penalties_def)
  from a b show ?thesis
    by (auto simp: auto_define_penalty_def penalties_def)
qed

theorem auto_penalty_at_least_one_witness:
  "fst (auto_define_penalty qp_example) = 2 \<and> 1 \<le> fst (auto_define_penalty qp_example)
   \<and> penalties qp_example = [1, 1]
   \<and> fst (auto_define_penalty qp_fractional) = 100000
   \<and> 1 \<le> fst (auto_define_penalty qp_fractional)"
proof -
  have i1: "\<not> is_integer (1 / 2)"
    by (simp add: is_integer_def del: of_int_floor_cancel)
  have i2: "is_integer 1"
    by (simp add: is_integer_def)
  have p: "penalties qp_example = [1, 1]"
    by (simp add: penalties_def example_defs)
  have t1: "constraint_terms qp_example = [1, 1]"
    by (simp add: constraint_terms_def example_defs)
  have t2: "constraint_terms qp_fractional = [1 / 2, 1]"
    by (simp add: constraint_terms_def example_defs)
  have v1: "fst (auto_define_penalty qp_example) = 2"
    by (simp add: auto_define_penalty_def t1 p fsum_def i2)
  have v2: "fst (auto_define_penalty qp_fractional) = 100000"
    by (simp add: auto_define_penalty_def t2 default_penalty_def i1)
  from auto_penalty_at_least_one [of qp_example, THEN conjunct1]
    auto_penalty_at_least_one [of qp_fractional, THEN conjunct1] v1 p v2
  show ?thesis by (intro conjI)
qed

section \<open>An inequality constraint makes encode raise\<close>

lemma con_sense_not_EQ: "(c \<noteq> EQ) = (c = LE \<or> c = GE)"
  by (cases c) simp_all

lemma decode_ignores_dst: "decode f (self\<lparr>dst := d'\<rparr>) r = decode f self r"
  by (simp add: decode_def)

lemma encode_outcome:
  "(\<exists>d. snd (snd (encode self op)) = Inr d) \<or>
   snd (snd (encode self op)) = Inl InequalityConstraintExists"
proof -
  let ?conv = "convert_constraints (sense_value (sense (objective op))) (penalty_used self op)
     (linear_constraints op)
     (obj_constant (objective op), linear (objective op), quadratic (objective op))"
  from convert_constraints_raises [of "sense_value (sense (objective op))"
      "penalty_used self op" "linear_constraints op"
      "(obj_constant (objective op), linear (objective op), quadratic (objective op))"]
  show ?thesis
  proof
    assume "\<exists>acc'. ?conv = Inr acc'"
    then obtain offset' lin' quad' where "?conv = Inr (offset', lin', quad')"
      by (elim exE, case_tac acc') auto
    from encode_returns(1) [OF this] show ?thesis by simp
  next
    assume "?conv = Inl InequalityConstraintExists"
    from encode_raises(1) [OF this] show ?thesis by simp
  qed
qed

lemma encode_Inl_iff:
  "(snd (snd (encode self op)) = Inl InequalityConstraintExists)
   = (\<exists>con \<in> set (linear_constraints op). con_sense con \<noteq> EQ)"
proof
  assume raised: "snd (snd (encode self op)) = Inl InequalityConstraintExists"
  show "\<exists>con \<in> set (linear_constraints op). con_sense con \<noteq> EQ"
  proof (rule ccontr)
    assume "\<not> (\<exists>con \<in> set (linear_constraints op). con_sense con \<noteq> EQ)"
    then have "\<forall>con \<in> set (linear_constraints op). con_sense con = EQ" by simp
    from convert_constraints_all_EQ [OF this]
    obtain offset' lin' quad' where
      "convert_constraints (sense_value (sense (objective op))) (penalty_used self op)
         (linear_constraints op)
         (obj_constant (objective op), linear (objective op), quadratic (objective op))
       = Inr (offset', lin', quad')"
      by (metis prod_cases3)
    from encode_returns(1) [OF this] raised show False by simp
  qed
next
  assume "\<exists>con \<in> set (linear_constraints op). con_sense con \<noteq> EQ"
  then have "convert_constraints (sense_value (sense (objective op))) (penalty_used self op)
         (linear_constraints op)
         (obj_constant (objective op), linear (objective op), quadratic (objective op))
       = Inl InequalityConstraintExists"
    by (simp only: convert_constraints_Inl_iff)
  from encode_raises(1) [OF this]
  show "snd (snd (encode self op)) = Inl InequalityConstraintExists" .
qed

lemma encode_Inl_dst:
  assumes "snd (snd (encode self op)) = Inl e"
  shows "dst (fst (encode self op)) = Some (named_model self op)"
proof (cases "convert_constraints (sense_value (sense (objective op))) (penalty_used self op)
         (linear_constraints op)
         (obj_constant (objective op), linear (objective op), quadratic (objective op))")
  case (Inl e')
  from encode_raises(2) [OF Inl] show ?thesis .
next
  case (Inr acc')
  obtain offset' lin' quad' where "acc' = (offset', lin', quad')" by (cases acc')
  with Inr encode_returns(1) [of op self offset' lin' quad'] assms show ?thesis by simp
qed

text \<open>
  C4: \<^verbatim>\<open>encode\<close> raises the inequality error exactly when some constraint of its
  argument has the sense LessEqual or GreaterEqual, and it raises nothing else. When it
  raises, no problem is returned; the destination kept in \<^verbatim>\<open>_dst\<close> still has the
  objective of the empty model and no constraints, so nothing has been accumulated into
  it; and \<^verbatim>\<open>decode\<close> never reads \<^verbatim>\<open>_dst\<close>.
\<close>

theorem encode_raises_iff_inequality:
  "(snd (snd (encode self op)) = Inl InequalityConstraintExists)
     = (\<exists>con \<in> set (linear_constraints op). con_sense con = LE \<or> con_sense con = GE)
   \<and> (\<forall>e. snd (snd (encode self op)) = Inl e \<longrightarrow>
        e = InequalityConstraintExists
        \<and> (\<forall>d. snd (snd (encode self op)) \<noteq> Inr d)
        \<and> (\<exists>d. dst (fst (encode self op)) = Some d
              \<and> objective d = objective QuadraticProgram
              \<and> linear_constraints d = [])
        \<and> (\<forall>f r d'. decode f ((fst (encode self op))\<lparr>dst := d'\<rparr>) r
              = decode f (fst (encode self op)) r))"
proof (intro conjI allI impI)
  show "(snd (snd (encode self op)) = Inl InequalityConstraintExists)
     = (\<exists>con \<in> set (linear_constraints op). con_sense con = LE \<or> con_sense con = GE)"
    by (simp only: encode_Inl_iff con_sense_not_EQ)
next
  fix e assume "snd (snd (encode self op)) = Inl e"
  with encode_outcome [of self op] show "e = InequalityConstraintExists" by auto
next
  fix e d assume "snd (snd (encode self op)) = Inl e"
  then show "snd (snd (encode self op)) \<noteq> Inr d" by simp
next
  fix e assume "snd (snd (encode self op)) = Inl e"
  from encode_Inl_dst [OF this]
  show "\<exists>d. dst (fst (encode self op)) = Some d
          \<and> objective d = objective QuadraticProgram \<and> linear_constraints d = []"
    by (simp add: named_model_parts)
next
  fix e f r d'
  show "decode f ((fst (encode self op))\<lparr>dst := d'\<rparr>) r = decode f (fst (encode self op)) r"
    by (rule decode_ignores_dst)
qed

theorem encode_raises_iff_inequality_witness:
  "map con_sense (linear_constraints qp_inequality) = [EQ, LE]
   \<and> snd (snd (encode (new_encoder (Some 2) None) qp_inequality)) = Inl InequalityConstraintExists
   \<and> (\<exists>d. dst (fst (encode (new_encoder (Some 2) None) qp_inequality)) = Some d
         \<and> objective d = objective QuadraticProgram \<and> linear_constraints d = [])
   \<and> map con_sense (linear_constraints qp_example) = [EQ]
   \<and> snd (snd (encode (new_encoder (Some 2) None) qp_example)) \<noteq> Inl InequalityConstraintExists"
proof -
  note bad = encode_raises_iff_inequality [of "new_encoder (Some 2) None" qp_inequality]
  note good = encode_raises_iff_inequality [of "new_encoder (Some 2) None" qp_example]
  have s1: "map con_sense (linear_constraints qp_inequality) = [EQ, LE]"
    by (simp add: example_defs)
  have s2: "map con_sense (linear_constraints qp_example) = [EQ]"
    by (simp add: example_defs)
  have h1: "\<exists>con \<in> set (linear_constraints qp_inequality). con_sense con = LE \<or> con_sense con = GE"
    by (simp add: example_defs)
  have h2: "\<forall>con \<in> set (linear_constraints qp_example).
              \<not> (con_sense con = LE \<or> con_sense con = GE)"
    by (simp add: example_defs)
  from h1 bad [THEN conjunct1]
  have r1: "snd (snd (encode (new_encoder (Some 2) None) qp_inequality))
            = Inl InequalityConstraintExists"
    by simp
  from bad [THEN conjunct2, THEN spec, THEN mp, OF r1]
  have r2: "\<exists>d. dst (fst (encode (new_encoder (Some 2) None) qp_inequality)) = Some d
         \<and> objective d = objective QuadraticProgram \<and> linear_constraints d = []"
    by (elim conjE)
  from h2 good [THEN conjunct1]
  have r3: "snd (snd (encode (new_encoder (Some 2) None) qp_example))
            \<noteq> Inl InequalityConstraintExists"
    by simp
  from s1 r1 r2 s2 r3 show ?thesis by (intro conjI)
qed

section \<open>What encode leaves on the instance\<close>

text \<open>
  C5: each call of \<^verbatim>\<open>encode\<close> is to store on the instance the source and the penalty
  the call worked with, an automatic one included. The source is stored; the automatic
  penalty is not. With no penalty configured, the call on the scenario works with the
  automatic penalty 2, and the instance's penalty, which the getter documented as
  "the penalty factor used in conversion" returns, is still \<^verbatim>\<open>None\<close> afterwards.
\<close>

theorem encode_auto_penalty_not_stored:
  "penalty_used (new_encoder None None) qp_example = 2
   \<and> src (fst (encode (new_encoder None None) qp_example)) = Some qp_example
   \<and> penalty (fst (encode (new_encoder None None) qp_example)) = None
   \<and> penalty (fst (encode (new_encoder None None) qp_example))
       \<noteq> Some (penalty_used (new_encoder None None) qp_example)"
proof -
  have t: "constraint_terms qp_example = [1, 1]"
    by (simp add: constraint_terms_def example_defs)
  have p: "penalties qp_example = [1, 1]"
    by (simp add: penalties_def example_defs)
  have i: "is_integer 1"
    by (simp add: is_integer_def)
  have n: "penalty (new_encoder None None) = None"
    by (simp add: new_encoder_def)
  have u: "penalty_used (new_encoder None None) qp_example = 2"
    by (simp add: penalty_used_def n auto_define_penalty_def t p i fsum_def)
  have s: "penalty (fst (encode (new_encoder None None) qp_example)) = None"
    by (simp add: encode_penalty n)
  from u s encode_src [of "new_encoder None None" qp_example] show ?thesis by simp
qed

section \<open>The variables and the sense of the returned problem\<close>





section \<open>decode\<close>

lemma update_absent_appends: "k \<notin> fst ` set al \<Longrightarrow> AList.update k v al = al @ [(k, v)]"
  by (induction al) auto

lemma substitute_prefix:
  assumes "distinct (map var_name vs)" and "length xs = length vs" and "n \<le> length xs"
  shows "fold (\<lambda>i d. dict_set d (var_name (vs ! i)) (xs ! i)) [0..<n] []
         = zip (map var_name (take n vs)) (take n xs)"
  using assms(3)
proof (induction n)
  case 0
  show ?case by simp
next
  case (Suc n)
  from Suc.prems have n: "n < length xs" "n < length vs" using assms(2) by simp_all
  have IH: "fold (\<lambda>i d. dict_set d (var_name (vs ! i)) (xs ! i)) [0..<n] []
            = zip (map var_name (take n vs)) (take n xs)"
    using Suc.IH n by simp
  have "var_name (vs ! n) \<notin> set (map var_name (take n vs))"
  proof
    assume "var_name (vs ! n) \<in> set (map var_name (take n vs))"
    then obtain i where i: "i < n" "map var_name vs ! i = map var_name vs ! n"
      using n by (auto simp: in_set_conv_nth)
    from assms(1) have "\<forall>i < length vs. \<forall>j < length vs.
        i \<noteq> j \<longrightarrow> var_name (vs ! i) \<noteq> var_name (vs ! j)"
      by (simp add: distinct_conv_nth)
    with i n show False
      by (metis less_trans nat_neq_iff nth_map)
  qed
  then have fresh: "var_name (vs ! n) \<notin> fst ` set (zip (map var_name (take n vs)) (take n xs))"
    by (auto dest: set_zip_leftD)
  have "fold (\<lambda>i d. dict_set d (var_name (vs ! i)) (xs ! i)) [0..<Suc n] []
        = zip (map var_name (take n vs)) (take n xs) @ [(var_name (vs ! n), xs ! n)]"
    by (simp only: upt_Suc_append [OF le0] fold_append fold_simps o_apply id_apply IH)
       (simp add: dict_set_def update_absent_appends [OF fresh])
  also have "\<dots> = zip (map var_name (take (Suc n) vs)) (take (Suc n) xs)"
    using n by (simp add: take_Suc_conv_app_nth)
  finally show ?case .
qed

lemma substitute_dict_zip:
  "distinct (map var_name vs) \<Longrightarrow> length xs = length vs \<Longrightarrow>
   substitute_dict vs xs = zip (map var_name vs) xs"
  using substitute_prefix [of vs xs "length xs"] by (simp add: substitute_dict_def)

lemma src_encoder_example: "src encoder_example = Some qp_example"
  by (simp add: encoder_example_def encode_src)

lemma substitute_dict_example: "substitute_dict [var_x] [v] = [(''x'', v)]"
  by (simp add: substitute_dict_def dict_set_def var_x_def)

text \<open>
  C7: for a result with as many values as the retained source has variables,
  \<^verbatim>\<open>decode\<close> returns a result with the same values, with the objective constant of the
  substituted source as its function value, and with the status Success when the
  substituted source is Valid and Infeasible otherwise. The substitution is applied to
  the retained source and to the dictionary that maps each variable's name to the value
  at its position.
\<close>

theorem decode_result:
  assumes "src self = Some s" and "length (res_x r) = length (variables s)"
  shows "\<exists>r'. decode substitute_variables self r = Inr r'
    \<and> res_x r' = res_x r
    \<and> fval r' = obj_constant (objective
         (substitute_variables s (substitute_dict (variables s) (res_x r))))
    \<and> res_status r'
       = (if status (substitute_variables s (substitute_dict (variables s) (res_x r))) = VALID
          then SUCCESS else INFEASIBLE)
    \<and> (distinct (map var_name (variables s)) \<longrightarrow>
         substitute_dict (variables s) (res_x r) = zip (map var_name (variables s)) (res_x r))"
  using assms by (simp add: decode_def Let_def substitute_dict_zip)

theorem decode_result_witness:
  "src encoder_example = Some qp_example
   \<and> length (res_x result_1) = length (variables qp_example)
   \<and> decode substitute_example encoder_example result_1
       = Inr \<lparr>res_x = [1], fval = 1, res_status = SUCCESS\<rparr>
   \<and> length (res_x result_0) = length (variables qp_example)
   \<and> decode substitute_example encoder_example result_0
       = Inr \<lparr>res_x = [0], fval = 0, res_status = INFEASIBLE\<rparr>
   \<and> distinct (map var_name (variables qp_example))
   \<and> substitute_dict (variables qp_example) (res_x result_1) = [(''x'', 1)]"
proof -
  have l1: "length (res_x result_1) = length (variables qp_example)"
    by (simp add: result_1_def qp_example_def)
  have l0: "length (res_x result_0) = length (variables qp_example)"
    by (simp add: result_0_def qp_example_def)
  have dn: "distinct (map var_name (variables qp_example))"
    by (simp add: qp_example_def)
  from decode_result [OF src_encoder_example l1, of substitute_example]
  obtain r1 where r1: "decode substitute_example encoder_example result_1 = Inr r1"
    and "res_x r1 = res_x result_1"
    and "fval r1 = obj_constant (objective
         (substitute_example qp_example (substitute_dict (variables qp_example) (res_x result_1))))"
    and "res_status r1
       = (if status (substitute_example qp_example
              (substitute_dict (variables qp_example) (res_x result_1))) = VALID
          then SUCCESS else INFEASIBLE)"
    and z: "distinct (map var_name (variables qp_example)) \<longrightarrow>
         substitute_dict (variables qp_example) (res_x result_1)
         = zip (map var_name (variables qp_example)) (res_x result_1)"
    by (elim exE conjE)
  then have e1: "r1 = \<lparr>res_x = [1], fval = 1, res_status = SUCCESS\<rparr>"
    by (cases r1)
       (simp add: result_1_def qp_example_def substitute_dict_example substitute_example_def
         dict_get_def)
  from mp [OF z dn]
  have sd: "substitute_dict (variables qp_example) (res_x result_1) = [(''x'', 1)]"
    by (simp add: qp_example_def result_1_def var_x_def)
  from decode_result [OF src_encoder_example l0, of substitute_example]
  obtain r0 where r0: "decode substitute_example encoder_example result_0 = Inr r0"
    and "res_x r0 = res_x result_0"
    and "fval r0 = obj_constant (objective
         (substitute_example qp_example (substitute_dict (variables qp_example) (res_x result_0))))"
    and "res_status r0
       = (if status (substitute_example qp_example
              (substitute_dict (variables qp_example) (res_x result_0))) = VALID
          then SUCCESS else INFEASIBLE)"
    by (elim exE conjE)
  then have e0: "r0 = \<lparr>res_x = [0], fval = 0, res_status = INFEASIBLE\<rparr>"
    by (cases r0)
       (simp add: result_0_def qp_example_def substitute_dict_example substitute_example_def
         dict_get_def)
  from src_encoder_example l1 r1 e1 l0 r0 e0 dn sd show ?thesis by simp
qed

text \<open>
  C8: with a retained source, \<^verbatim>\<open>decode\<close> raises the error about the number of variables
  exactly when the result has another number of values than the source has variables; it
  raises nothing else, and when it raises it returns no result.
\<close>

theorem decode_raises_iff_length_differs:
  assumes "src self = Some s"
  shows "(decode substitute_variables self r = Inl VariableCountDiffers)
           = (length (res_x r) \<noteq> length (variables s))
    \<and> (length (res_x r) \<noteq> length (variables s) \<longrightarrow>
          (\<forall>r'. decode substitute_variables self r \<noteq> Inr r'))
    \<and> (\<forall>e. decode substitute_variables self r = Inl e \<longrightarrow> e = VariableCountDiffers)"
  using assms by (simp add: decode_def Let_def)

theorem decode_raises_iff_length_differs_witness:
  "src encoder_example = Some qp_example
   \<and> length (res_x result_long) = 2 \<and> length (variables qp_example) = 1
   \<and> decode substitute_example encoder_example result_long = Inl VariableCountDiffers
   \<and> length (res_x result_1) = 1
   \<and> decode substitute_example encoder_example result_1 \<noteq> Inl VariableCountDiffers"
  using decode_raises_iff_length_differs [OF src_encoder_example, of substitute_example result_long]
    decode_raises_iff_length_differs [OF src_encoder_example, of substitute_example result_1]
  by (simp add: src_encoder_example result_long_def result_1_def qp_example_def)

section \<open>A failed encode keeps the new source\<close>

text \<open>
  C9: \<^verbatim>\<open>encode\<close> stores its argument as the source before it checks anything, so when it
  raises, the instance already holds the rejected problem in place of the source of an
  earlier call, and a later \<^verbatim>\<open>decode\<close> works against the rejected problem; the configured
  penalty and name are as before.
\<close>

theorem encode_failure_keeps_new_source:
  assumes "snd (snd (encode self op)) = Inl e"
  shows "src (fst (encode self op)) = Some op
    \<and> penalty (fst (encode self op)) = penalty self
    \<and> dst_name (fst (encode self op)) = dst_name self
    \<and> (\<forall>f r. decode f (fst (encode self op)) r = decode f (self\<lparr>src := Some op\<rparr>) r)"
  by (simp add: encode_src encode_penalty encode_dst_name decode_def)

theorem encode_failure_keeps_new_source_witness:
  "src encoder_example = Some qp_example
   \<and> snd (snd (encode encoder_example qp_inequality)) = Inl InequalityConstraintExists
   \<and> src (fst (encode encoder_example qp_inequality)) = Some qp_inequality
   \<and> qp_inequality \<noteq> qp_example
   \<and> decode substitute_example (fst (encode encoder_example qp_inequality)) result_1
       = decode substitute_example (encoder_example\<lparr>src := Some qp_inequality\<rparr>) result_1"
proof -
  have "\<exists>con \<in> set (linear_constraints qp_inequality). con_sense con \<noteq> EQ"
    by (simp add: example_defs)
  then have raised: "snd (snd (encode encoder_example qp_inequality))
                     = Inl InequalityConstraintExists"
    by (simp only: encode_Inl_iff)
  have differ: "qp_inequality \<noteq> qp_example"
    by (simp add: example_defs)
  from encode_failure_keeps_new_source [OF raised] src_encoder_example raised differ
  show ?thesis by simp
qed

end
